theory Spec2Isabelle
  imports Complex_Main "HOL-Library.Word" "HOL-Library.Multiset" "HOL-Library.Sublist"
begin

unbundle bit_operations_syntax

section \<open>Bytes and Python slices\<close>

text \<open>
  The scripts read files in binary mode: a file is a sequence of bytes, each an integer
  in \<open>0..255\<close>. Python's integers are unbounded, so every sum of bytes is an \<open>int\<close>.
\<close>

type_synonym byte = "8 word"

text \<open>
  \<^verbatim>\<open>data[a:b]\<close> for \<open>0 \<le> a\<close> and \<open>0 \<le> b\<close>: Python clips a slice to the sequence, it
  never raises; \<^verbatim>\<open>data[a:]\<close> is \<open>drop a data\<close>.
\<close>

definition py_slice :: "'a list \<Rightarrow> nat \<Rightarrow> nat \<Rightarrow> 'a list" where
  "py_slice xs a b = take (b - a) (drop a xs)"

text \<open>\<^verbatim>\<open>sum(data)\<close> over a bytes object.\<close>

definition byte_sum :: "byte list \<Rightarrow> int" where
  "byte_sum xs = sum_list (map uint xs)"

section \<open>The provisioner: write_games_to_sd.py\<close>

definition BLOCK_SIZE :: nat where
  "BLOCK_SIZE = 512"

definition BLOCKS_PER_GAME :: nat where
  "BLOCKS_PER_GAME = 100"

text \<open>\<^verbatim>\<open>start_block = 1 + (game_number * BLOCKS_PER_GAME)\<close>\<close>

definition start_block :: "nat \<Rightarrow> nat" where
  "start_block game_number = 1 + (game_number * BLOCKS_PER_GAME)"

text \<open>\<^verbatim>\<open>blocks_needed = (game_size + BLOCK_SIZE - 1) // BLOCK_SIZE\<close>\<close>

definition blocks_needed :: "nat \<Rightarrow> nat" where
  "blocks_needed game_size = (game_size + BLOCK_SIZE - 1) div BLOCK_SIZE"

text \<open>\<^verbatim>\<open>offset = start_block * BLOCK_SIZE\<close>, the argument of \<^verbatim>\<open>sd.seek\<close>.\<close>

definition seek_offset :: "nat \<Rightarrow> nat" where
  "seek_offset game_number = start_block game_number * BLOCK_SIZE"

text \<open>
  The medium is a store of bytes indexed by byte offset. \<^verbatim>\<open>sd.write(bs)\<close> at position
  \<open>pos\<close> overwrites \<open>length bs\<close> bytes from \<open>pos\<close> on and leaves every other byte alone.
\<close>

type_synonym device = "nat \<Rightarrow> byte"

definition dev_write :: "device \<Rightarrow> nat \<Rightarrow> byte list \<Rightarrow> device" where
  "dev_write dev pos bs =
     (\<lambda>a. if pos \<le> a \<and> a < pos + length bs then bs ! (a - pos) else dev a)"

text \<open>
  What the operating system does with the device is outside the script. \<^verbatim>\<open>open(sd_device,
  'r+b')\<close> can raise, and so can \<^verbatim>\<open>seek\<close>, \<^verbatim>\<open>write\<close>, \<^verbatim>\<open>flush\<close> and \<^verbatim>\<open>fsync\<close> inside the
  \<^verbatim>\<open>with\<close> block, after some of the image and its padding has reached the medium:
  \<open>BodyFails e k\<close> is such a failure after the first \<open>k\<close> bytes. Both \<^verbatim>\<open>except\<close> clauses
  return \<^verbatim>\<open>False\<close>; the three \<^verbatim>\<open>return False\<close> of the function are told apart by the error
  they print.
\<close>

datatype exc_kind = PermissionErr | OtherErr

datatype sd_io = IoOk | OpenFails exc_kind | BodyFails exc_kind nat

datatype write_error = OversizeImage | PermissionDenied | OtherError

definition error_of :: "exc_kind \<Rightarrow> write_error" where
  "error_of e = (case e of PermissionErr \<Rightarrow> PermissionDenied | OtherErr \<Rightarrow> OtherError)"

definition write_game_to_blocks ::
  "sd_io \<Rightarrow> device \<Rightarrow> byte list \<Rightarrow> nat \<Rightarrow> (write_error + unit) \<times> device" where
  "write_game_to_blocks io dev game_data game_number =
     (let game_size = length game_data in
      if blocks_needed game_size > BLOCKS_PER_GAME then (Inl OversizeImage, dev)
      else
        (let offset = seek_offset game_number;
             remainder = game_size mod BLOCK_SIZE;
             padding = (if remainder > 0 then replicate (BLOCK_SIZE - remainder) 0 else [])
         in case io of
              OpenFails e \<Rightarrow> (Inl (error_of e), dev)
            | BodyFails e k \<Rightarrow>
                (Inl (error_of e), dev_write dev offset (take k (game_data @ padding)))
            | IoOk \<Rightarrow>
                (let dev1 = dev_write dev offset game_data;
                     dev2 = (if remainder > 0
                             then dev_write dev1 (offset + game_size) padding
                             else dev1)
                 in (Inr (), dev2))))"

text \<open>The boolean the Python function returns.\<close>

definition write_ok :: "(write_error + unit) \<times> device \<Rightarrow> bool" where
  "write_ok r = (case fst r of Inl _ \<Rightarrow> False | Inr _ \<Rightarrow> True)"

subsection \<open>The entry point\<close>

text \<open>Python's \<^verbatim>\<open>sub in s\<close> on strings: \<open>sub\<close> occurs in \<open>s\<close> as a contiguous run.\<close>

fun starts_with :: "string \<Rightarrow> string \<Rightarrow> bool" where
  "starts_with s [] = True"
| "starts_with [] (p # ps) = False"
| "starts_with (c # cs) (p # ps) = (c = p \<and> starts_with cs ps)"

fun str_contains :: "string \<Rightarrow> string \<Rightarrow> bool" where
  "str_contains [] sub = (sub = [])"
| "str_contains (c # cs) sub = (starts_with (c # cs) sub \<or> str_contains cs sub)"

text \<open>
  What \<^verbatim>\<open>main\<close> reads from its surroundings: which paths exist, what the user types at
  the prompt, the content of each game file, and how the device behaves.
\<close>

record main_env =
  path_exists :: "string \<Rightarrow> bool"
  user_response :: string
  file_data :: "string \<Rightarrow> byte list"
  device_io :: sd_io

datatype main_outcome = SysExit nat | Completed nat

text \<open>
  The loop \<^verbatim>\<open>for i, game_file in enumerate(game_files)\<close>: \<open>i\<close> counts every file, also
  the ones skipped because they do not exist.
\<close>

fun write_games :: "main_env \<Rightarrow> device \<Rightarrow> nat \<Rightarrow> string list \<Rightarrow> nat \<Rightarrow> nat \<times> device" where
  "write_games env dev i [] success_count = (success_count, dev)"
| "write_games env dev i (game_file # rest) success_count =
     (if \<not> path_exists env game_file then write_games env dev (i + 1) rest success_count
      else
        (let r = write_game_to_blocks (device_io env) dev (file_data env game_file) i
         in write_games env (snd r) (i + 1) rest
              (if write_ok r then success_count + 1 else success_count)))"

definition main :: "main_env \<Rightarrow> string list \<Rightarrow> device \<Rightarrow> main_outcome \<times> device" where
  "main env argv dev =
     (if length argv < 3 then (SysExit 1, dev)
      else
        (let sd_device = argv ! 1; game_files = drop 2 argv in
         if \<not> path_exists env sd_device then (SysExit 1, dev)
         else if str_contains sd_device ''/dev/disk0'' \<or> str_contains sd_device ''/dev/disk1''
           then (SysExit 1, dev)
         else if user_response env \<noteq> ''YES'' then (SysExit 0, dev)
         else
           (let r = write_games env dev 0 game_files 0
            in (Completed (fst r), snd r))))"

section \<open>The loader state machine: the Verilog text of replace_loader.py\<close>

text \<open>
  \<^verbatim>\<open>new_logic\<close> is the \<^verbatim>\<open>case (sd_state)\<close> block the script writes into the design. It is
  clocked logic with non-blocking assignments: every right-hand side reads the registers
  as they were before the tick. The block declares no register widths, so the counters
  are natural numbers; \<^verbatim>\<open>GAME_SIZE_SECTORS\<close> is a parameter of the design that the block
  only reads, and is a parameter here. A value of \<^verbatim>\<open>sd_state\<close> outside the six named
  ones is \<open>SD_OTHER\<close>, the \<^verbatim>\<open>default\<close> branch.
\<close>

datatype sd_state = SD_IDLE | SD_LOAD_START | SD_LOAD_WAIT | SD_LOAD_DATA | SD_LOAD_NEXT
  | SD_COMPLETE | SD_OTHER nat

text \<open>The signals the block reads and does not assign.\<close>

record loader_in =
  sd_ready :: bool
  sd_status :: nat
  sd_byte_available :: bool
  sd_byte_available_d :: bool

text \<open>The registers the block assigns.\<close>

record loader =
  sd_state :: sd_state
  sd_address :: nat
  sd_rd :: bool
  byte_in_sector :: nat
  psram_wr_req :: bool
  psram_load_addr :: nat
  current_sector :: nat
  load_complete :: bool
  game_loaded :: bool

text \<open>
  One clock tick. \<^verbatim>\<open>current_sector == GAME_SIZE_SECTORS - 1\<close> is compared over the
  integers, so that a parameter of 0 matches no sector.
\<close>

definition sd_step :: "nat \<Rightarrow> loader_in \<Rightarrow> loader \<Rightarrow> loader" where
  "sd_step GAME_SIZE_SECTORS i s =
     (case sd_state s of
        SD_IDLE \<Rightarrow>
          (if sd_ready i \<and> sd_status i = 6 then s\<lparr>sd_state := SD_LOAD_START\<rparr> else s)
      | SD_LOAD_START \<Rightarrow>
          s\<lparr>sd_address := current_sector s, sd_rd := True, byte_in_sector := 0,
            sd_state := SD_LOAD_WAIT\<rparr>
      | SD_LOAD_WAIT \<Rightarrow>
          (if \<not> sd_ready i then s\<lparr>sd_rd := False, sd_state := SD_LOAD_DATA\<rparr> else s)
      | SD_LOAD_DATA \<Rightarrow>
          (if sd_ready i \<and> byte_in_sector s < 512 then s\<lparr>sd_state := SD_LOAD_NEXT\<rparr>
           else if sd_byte_available i \<and> \<not> sd_byte_available_d i then
             s\<lparr>psram_wr_req := True,
               psram_load_addr := psram_load_addr s + 1,
               byte_in_sector := byte_in_sector s + 1,
               sd_state := (if byte_in_sector s = 511 then SD_LOAD_NEXT else SD_LOAD_DATA)\<rparr>
           else s)
      | SD_LOAD_NEXT \<Rightarrow>
          (if int (current_sector s) = int GAME_SIZE_SECTORS - 1
           then s\<lparr>psram_wr_req := False, sd_state := SD_COMPLETE\<rparr>
           else s\<lparr>psram_wr_req := False, current_sector := current_sector s + 1,
                  sd_state := SD_LOAD_START\<rparr>)
      | SD_COMPLETE \<Rightarrow> s\<lparr>load_complete := True, game_loaded := True\<rparr>
      | SD_OTHER v \<Rightarrow> s\<lparr>sd_state := SD_IDLE\<rparr>)"

text \<open>The machine over a trace of inputs, one per tick.\<close>

fun sd_run :: "nat \<Rightarrow> loader \<Rightarrow> loader_in list \<Rightarrow> loader" where
  "sd_run G s [] = s"
| "sd_run G s (i # ins) = sd_run G (sd_step G i s) ins"

subsection \<open>A device that delivers every sector in full\<close>

text \<open>
  The inputs of one tick: the card idle and ready (\<open>in_go\<close>), the card busy with no byte
  (\<open>in_busy\<close>), a byte arriving (\<open>in_byte\<close>, the flag high and its delayed copy still low),
  and the tick after it (\<open>in_gap\<close>, the flag low again and its delayed copy high).
\<close>

definition in_go :: loader_in where
  "in_go = \<lparr>sd_ready = True, sd_status = 6, sd_byte_available = False,
            sd_byte_available_d = False\<rparr>"

definition in_busy :: loader_in where
  "in_busy = \<lparr>sd_ready = False, sd_status = 0, sd_byte_available = False,
              sd_byte_available_d = False\<rparr>"

definition in_byte :: loader_in where
  "in_byte = \<lparr>sd_ready = False, sd_status = 0, sd_byte_available = True,
              sd_byte_available_d = False\<rparr>"

definition in_gap :: loader_in where
  "in_gap = \<lparr>sd_ready = False, sd_status = 0, sd_byte_available = False,
             sd_byte_available_d = True\<rparr>"



text \<open>
  Modelled from the spec: the registers of a fresh session (the case block gives no reset
  values): idle, block index 0, byte counter 0, both flags false.
\<close>

definition loader_init :: loader where
  "loader_init = \<lparr>sd_state = SD_IDLE, sd_address = 0, sd_rd = False, byte_in_sector = 0,
     psram_wr_req = False, psram_load_addr = 0, current_sector = 0, load_complete = False,
     game_loaded = False\<rparr>"

section \<open>The load session: control block and data path\<close>








subsection \<open>Invariants of the session\<close>







section \<open>The checksum scripts\<close>

subsection \<open>sim_crc2.py: the periodic partial-sample sweep\<close>

text \<open>
  \<^verbatim>\<open>data.extend(b'\x00' * (98304 - len(data)))\<close>: a file shorter than 98304 bytes is
  padded with zeros, a longer one is left as it is (a negative repeat count is empty).
\<close>

definition pad_data :: "byte list \<Rightarrow> byte list" where
  "pad_data file = file @ replicate (98304 - length file) 0"

text \<open>The body of the sweep: three four-byte slices from \<open>byte_addr\<close> on are summed.\<close>

definition sample_words :: "byte list \<Rightarrow> nat \<Rightarrow> int \<Rightarrow> int" where
  "sample_words data byte_addr checksum =
     fold (\<lambda>i c. fold (\<lambda>b c'. c' + uint b)
                      (py_slice data (byte_addr + i * 4) (byte_addr + i * 4 + 4)) c)
          [0..<3] checksum"

text \<open>\<^verbatim>\<open>while crc_address <= 0x00BFF0\<close>, with \<^verbatim>\<open>byte_addr = crc_address * 2\<close>.\<close>

function crc_sweep :: "byte list \<Rightarrow> nat \<Rightarrow> int \<Rightarrow> int" where
  "crc_sweep data crc_address checksum =
     (if crc_address \<le> 0x00BFF0
      then crc_sweep data (crc_address + 16) (sample_words data (crc_address * 2) checksum)
      else checksum)"
  by pat_completeness auto
termination
  by (relation "measure (\<lambda>(data, crc_address, checksum). 0x00BFF1 - crc_address)") auto

text \<open>The script: the value of \<^verbatim>\<open>checksum\<close> it prints for a file.\<close>

definition sim_crc2 :: "byte list \<Rightarrow> int" where
  "sim_crc2 file = crc_sweep (pad_data file) 0 0"

subsection \<open>sim_crc3.py: the full sum over the loaded sectors\<close>

text \<open>\<^verbatim>\<open>payload_len = 49664 - 128\<close>, \<^verbatim>\<open>payload = data[128:128+payload_len]\<close>\<close>

definition sd_payload :: "byte list \<Rightarrow> byte list" where
  "sd_payload data = (let payload_len = 49664 - 128 in py_slice data 128 (128 + payload_len))"

text \<open>\<^verbatim>\<open>sd_checksum = (sd_checksum + b) & 0xFFFFFFFF\<close> for each byte of the payload.\<close>

definition wrapped_sum :: "byte list \<Rightarrow> int" where
  "wrapped_sum payload = fold (\<lambda>b c. (c + uint b) AND 0xFFFFFFFF) payload 0"

definition sd_checksum :: "byte list \<Rightarrow> int" where
  "sd_checksum data = wrapped_sum (sd_payload data)"

subsection \<open>verify_checksum.py\<close>

text \<open>
  \<^verbatim>\<open>calculate_sum(filename, skip_header)\<close>: the file is \<open>None\<close> when it does not exist
  (\<^verbatim>\<open>FileNotFoundError\<close>, the function returns \<^verbatim>\<open>None\<close>). The sum is not reduced.
\<close>

definition processing_data :: "byte list \<Rightarrow> int \<Rightarrow> byte list" where
  "processing_data data skip_header =
     (if skip_header > 0 then drop (nat skip_header) data else data)"

definition calculate_sum :: "byte list option \<Rightarrow> int \<Rightarrow> int option" where
  "calculate_sum file skip_header =
     (case file of
        None \<Rightarrow> None
      | Some data \<Rightarrow> Some (byte_sum (processing_data data skip_header)))"

section \<open>sim_offset.py: where a byte lands in a burst\<close>

text \<open>
  \<^verbatim>\<open>word_sel = (psram_load_addr >> 2) & 3\<close> and \<^verbatim>\<open>byte_sel = psram_load_addr & 3\<close>; the
  script prints them for the addresses 0 to 31, ``2 burst writes'' of 16 bytes.
\<close>

definition word_sel :: "nat \<Rightarrow> nat" where
  "word_sel load_addr = (drop_bit 2 load_addr) AND 3"

definition byte_sel :: "nat \<Rightarrow> nat" where
  "byte_sel load_addr = load_addr AND 3"

text \<open>The loop: the address starts at 0 and grows by one per line printed.\<close>

definition sim_offset :: "(nat \<times> nat \<times> nat) list" where
  "sim_offset =
     snd (fold (\<lambda>i (load_addr, out).
                  (load_addr + 1, out @ [(i, word_sel load_addr, byte_sel load_addr)]))
               [0..<32] (0, []))"

section \<open>Slot placement and the oversize check\<close>

lemma blocks_needed_ceiling:
  "int (blocks_needed n) = \<lceil>real n / real BLOCK_SIZE\<rceil>"
proof -
  have "\<lceil>real n / real BLOCK_SIZE\<rceil> = \<lceil>real_of_int (int n) / real_of_int 512\<rceil>"
    by (simp add: BLOCK_SIZE_def)
  also have "\<dots> = - (- int n div 512)"
    by (rule ceiling_divide_eq_div)
  also have "\<dots> = (int n + 511) div 512"
    by linarith
  also have "\<dots> = int ((n + 511) div 512)"
    by (simp add: zdiv_int)
  finally show ?thesis
    by (simp add: blocks_needed_def BLOCK_SIZE_def)
qed

text \<open>
  A successful write puts the image at the slot's byte offset, byte for byte.
\<close>

lemma write_game_places_image:
  assumes "blocks_needed (length game_data) \<le> BLOCKS_PER_GAME" and "i < length game_data"
  shows "snd (write_game_to_blocks IoOk dev game_data n) (seek_offset n + i) = game_data ! i"
  using assms by (simp add: write_game_to_blocks_def Let_def dev_write_def)

text \<open>
  C9. Slot \<open>n\<close> starts at block \<open>1 + n * blocks_per_slot\<close> with \<open>blocks_per_slot = 100\<close>;
  slot 2 starts at block 201, and the provisioner seeks to byte \<open>201 * 512 = 102912\<close>
  before it writes the image of slot 2. That offset is where the image lands: after a
  successful write of an image that fits its slot, byte \<open>i\<close> of the image is at byte
  \<open>(1 + n * 100) * 512 + i\<close> of the medium.
\<close>

theorem slot_start_block:
  "start_block n = 1 + n * 100 \<and> BLOCKS_PER_GAME = 100 \<and> start_block 2 = 201 \<and>
   seek_offset 2 = 201 * 512 \<and> seek_offset 2 = 102912 \<and>
   (blocks_needed (length game_data) \<le> BLOCKS_PER_GAME \<and> i < length game_data \<longrightarrow>
      snd (write_game_to_blocks IoOk dev game_data n) ((1 + n * 100) * 512 + i)
        = game_data ! i)"
proof -
  have o: "seek_offset n = (1 + n * 100) * 512"
    by (simp add: start_block_def seek_offset_def BLOCKS_PER_GAME_def BLOCK_SIZE_def)
  have "blocks_needed (length game_data) \<le> BLOCKS_PER_GAME \<and> i < length game_data \<longrightarrow>
      snd (write_game_to_blocks IoOk dev game_data n) (seek_offset n + i) = game_data ! i"
    using write_game_places_image [of game_data i dev n] by blast
  then show ?thesis
    unfolding o
    by (simp add: start_block_def seek_offset_def BLOCKS_PER_GAME_def BLOCK_SIZE_def)
qed

theorem slot_start_block_witness:
  "blocks_needed (length [1, 2, 3 :: byte]) \<le> BLOCKS_PER_GAME \<and>
   (1::nat) < length [1, 2, 3 :: byte] \<and> start_block 2 = 201 \<and>
   snd (write_game_to_blocks IoOk (\<lambda>_. 0) [1, 2, 3] 2) 102913 = 2"
proof -
  have h: "blocks_needed (length [1, 2, 3 :: byte]) \<le> BLOCKS_PER_GAME"
    "(1::nat) < length [1, 2, 3 :: byte]"
    by (simp_all add: blocks_needed_def BLOCK_SIZE_def BLOCKS_PER_GAME_def)
  from slot_start_block [of 2 "[1, 2, 3]" 1 "\<lambda>_. 0"] h
  show ?thesis by simp
qed

text \<open>
  C6. The provisioner rejects an image with \<open>OversizeImage\<close> exactly when
  \<open>ceil(len(image) / block_size)\<close> exceeds \<open>blocks_per_slot = 100\<close>; when it rejects, the
  outcome does not depend on how the device would behave, and the medium is left as it
  was.
\<close>

theorem oversize_iff:
  "(fst (write_game_to_blocks io dev img n) = Inl OversizeImage
      \<longleftrightarrow> \<lceil>real (length img) / real BLOCK_SIZE\<rceil> > int BLOCKS_PER_GAME) \<and>
   (\<lceil>real (length img) / real BLOCK_SIZE\<rceil> > int BLOCKS_PER_GAME \<longrightarrow>
      write_game_to_blocks io dev img n = (Inl OversizeImage, dev)) \<and>
   BLOCKS_PER_GAME = 100 \<and> BLOCK_SIZE = 512"
proof -
  have c: "(\<lceil>real (length img) / real BLOCK_SIZE\<rceil> > int BLOCKS_PER_GAME)
             = (blocks_needed (length img) > BLOCKS_PER_GAME)"
    by (simp add: blocks_needed_ceiling [symmetric])
  show ?thesis
    unfolding c
    by (cases io)
       (simp_all add: write_game_to_blocks_def Let_def BLOCKS_PER_GAME_def BLOCK_SIZE_def
          error_of_def split: exc_kind.splits)
qed

theorem oversize_iff_witness:
  "\<lceil>real (length (replicate 51201 (0::byte))) / real BLOCK_SIZE\<rceil> > int BLOCKS_PER_GAME \<and>
   write_game_to_blocks IoOk (\<lambda>_. 0) (replicate 51201 0) 0 = (Inl OversizeImage, (\<lambda>_. 0))"
proof -
  have h: "\<lceil>real (length (replicate 51201 (0::byte))) / real BLOCK_SIZE\<rceil>
             > int BLOCKS_PER_GAME"
    by (simp add: blocks_needed_ceiling [symmetric] blocks_needed_def BLOCK_SIZE_def
          BLOCKS_PER_GAME_def)
  show ?thesis
    using h oversize_iff [of IoOk "\<lambda>_. 0" "replicate 51201 0" 0] by blast
qed

section \<open>The entry point's safety check\<close>

lemma starts_with_prefix: "starts_with s p = prefix p s"
  by (induction s p rule: starts_with.induct) auto

text \<open>\<open>str_contains\<close> is the substring relation.\<close>

lemma str_contains_sublist: "str_contains s sub = sublist sub s"
  by (induction s) (auto simp: starts_with_prefix sublist_Cons_right)

text \<open>
  C10. When the device path contains \<^verbatim>\<open>/dev/disk0\<close> or \<^verbatim>\<open>/dev/disk1\<close>, \<^verbatim>\<open>main\<close> exits with
  status 1 and the medium is untouched, whatever else holds; the test is a substring
  test, so \<^verbatim>\<open>/dev/disk10\<close> is refused as well.
\<close>

theorem main_refuses_system_disks:
  "(str_contains sd_device ''/dev/disk0'' \<or> str_contains sd_device ''/dev/disk1'' \<longrightarrow>
      main env (prog # sd_device # game_files) dev = (SysExit 1, dev)) \<and>
   str_contains ''/dev/disk10'' ''/dev/disk1'' \<and>
   main env (prog # ''/dev/disk10'' # game_files) dev = (SysExit 1, dev)"
  by (simp add: main_def Let_def)

theorem main_refuses_system_disks_witness:
  "str_contains ''/dev/disk1'' ''/dev/disk1'' \<and>
   main \<lparr>path_exists = (\<lambda>_. True), user_response = ''YES'', file_data = (\<lambda>_. []),
         device_io = IoOk\<rparr> [''write_games_to_sd.py'', ''/dev/disk1'', ''astrowing.a78'']
        (\<lambda>_. 0) = (SysExit 1, (\<lambda>_. 0))"
proof -
  have h: "str_contains ''/dev/disk1'' ''/dev/disk1''" by simp
  show ?thesis
    using h main_refuses_system_disks [of "''/dev/disk1''"
        "\<lparr>path_exists = (\<lambda>_. True), user_response = ''YES'', file_data = (\<lambda>_. []),
          device_io = IoOk\<rparr>" "''write_games_to_sd.py''" "[''astrowing.a78'']" "\<lambda>_. 0"]
    by blast
qed

section \<open>The loader state machine\<close>


subsection \<open>Complete is terminal\<close>

lemma complete_step:
  "sd_state s = SD_COMPLETE \<Longrightarrow>
     sd_state (sd_step G i s) = SD_COMPLETE \<and> load_complete (sd_step G i s) \<and>
     game_loaded (sd_step G i s)"
  by (simp add: sd_step_def)

lemma complete_run_state:
  "sd_state s = SD_COMPLETE \<Longrightarrow> sd_state (sd_run G s ins) = SD_COMPLETE"
  by (induction ins arbitrary: s) (auto simp: complete_step)

lemma complete_flags_step:
  "sd_state s = SD_COMPLETE \<Longrightarrow> load_complete s \<Longrightarrow> game_loaded s \<Longrightarrow> sd_step G i s = s"
  by (simp add: sd_step_def)

lemma complete_flags_run:
  "sd_state s = SD_COMPLETE \<Longrightarrow> load_complete s \<Longrightarrow> game_loaded s \<Longrightarrow> sd_run G s ins = s"
  by (induction ins) (auto simp: complete_flags_step)

lemma complete_run_flags:
  assumes "sd_state s = SD_COMPLETE" and "ins \<noteq> []"
  shows "load_complete (sd_run G s ins) \<and> game_loaded (sd_run G s ins)"
proof (cases ins)
  case Nil
  with assms show ?thesis by simp
next
  case (Cons i rest)
  let ?t = "sd_step G i s"
  from assms(1) have t: "sd_state ?t = SD_COMPLETE" "load_complete ?t" "game_loaded ?t"
    by (simp_all add: complete_step)
  then have "sd_run G ?t rest = ?t" by (rule complete_flags_run)
  with t Cons show ?thesis by simp
qed

text \<open>
  C4. In \<open>LoadNext\<close> the machine goes to \<open>Complete\<close> exactly when the current block index
  is \<open>total_sectors - 1\<close>; otherwise it adds one to the block index and goes back to
  \<open>LoadStart\<close>. From \<open>Complete\<close> every trace of inputs leaves it in \<open>Complete\<close>, and after
  the first tick there \<open>load_complete\<close> and \<open>game_loaded\<close> are set.
\<close>

theorem load_next_transition:
  "(sd_state s = SD_LOAD_NEXT \<longrightarrow>
      (sd_state (sd_step G i s) = SD_COMPLETE \<longleftrightarrow> int (current_sector s) = int G - 1) \<and>
      (int (current_sector s) \<noteq> int G - 1 \<longrightarrow>
         sd_state (sd_step G i s) = SD_LOAD_START \<and>
         current_sector (sd_step G i s) = current_sector s + 1) \<and>
      \<not> psram_wr_req (sd_step G i s)) \<and>
   (sd_state s = SD_COMPLETE \<longrightarrow>
      sd_state (sd_run G s ins) = SD_COMPLETE \<and>
      (ins \<noteq> [] \<longrightarrow> load_complete (sd_run G s ins) \<and> game_loaded (sd_run G s ins)))"
proof (intro conjI impI)
  assume "sd_state s = SD_COMPLETE"
  then show "sd_state (sd_run G s ins) = SD_COMPLETE" by (rule complete_run_state)
next
  assume "sd_state s = SD_COMPLETE" "ins \<noteq> []"
  then show "load_complete (sd_run G s ins)" "game_loaded (sd_run G s ins)"
    using complete_run_flags by blast+
qed (simp_all add: sd_step_def)

theorem load_next_transition_witness:
  "sd_state (loader_init\<lparr>sd_state := SD_LOAD_NEXT, current_sector := 96\<rparr>) = SD_LOAD_NEXT \<and>
   sd_state (sd_step 97 in_gap (loader_init\<lparr>sd_state := SD_LOAD_NEXT, current_sector := 96\<rparr>))
     = SD_COMPLETE \<and>
   sd_state (loader_init\<lparr>sd_state := SD_LOAD_NEXT, current_sector := 5\<rparr>) = SD_LOAD_NEXT \<and>
   current_sector (sd_step 97 in_gap (loader_init\<lparr>sd_state := SD_LOAD_NEXT, current_sector := 5\<rparr>))
     = 6 \<and>
   sd_state (loader_init\<lparr>sd_state := SD_COMPLETE\<rparr>) = SD_COMPLETE \<and>
   [in_gap, in_go] \<noteq> [] \<and>
   sd_state (sd_run 97 (loader_init\<lparr>sd_state := SD_COMPLETE\<rparr>) [in_gap, in_go]) = SD_COMPLETE \<and>
   load_complete (sd_run 97 (loader_init\<lparr>sd_state := SD_COMPLETE\<rparr>) [in_gap, in_go]) \<and>
   game_loaded (sd_run 97 (loader_init\<lparr>sd_state := SD_COMPLETE\<rparr>) [in_gap, in_go])"
proof -
  have a: "sd_state (loader_init\<lparr>sd_state := SD_LOAD_NEXT, current_sector := 96\<rparr>) = SD_LOAD_NEXT"
          "int (current_sector (loader_init\<lparr>sd_state := SD_LOAD_NEXT, current_sector := 96\<rparr>))
             = int 97 - 1"
    by simp_all
  have b: "sd_state (loader_init\<lparr>sd_state := SD_LOAD_NEXT, current_sector := 5\<rparr>) = SD_LOAD_NEXT"
          "int (current_sector (loader_init\<lparr>sd_state := SD_LOAD_NEXT, current_sector := 5\<rparr>))
             \<noteq> int 97 - 1"
          "current_sector (loader_init\<lparr>sd_state := SD_LOAD_NEXT, current_sector := 5\<rparr>) + 1 = 6"
    by simp_all
  have c: "sd_state (loader_init\<lparr>sd_state := SD_COMPLETE\<rparr>) = SD_COMPLETE"
          "[in_gap, in_go] \<noteq> []"
    by simp_all
  show ?thesis
    using a b c
      load_next_transition [of "loader_init\<lparr>sd_state := SD_LOAD_NEXT, current_sector := 96\<rparr>"
        97 in_gap "[]"]
      load_next_transition [of "loader_init\<lparr>sd_state := SD_LOAD_NEXT, current_sector := 5\<rparr>"
        97 in_gap "[]"]
      load_next_transition [of "loader_init\<lparr>sd_state := SD_COMPLETE\<rparr>" 97 in_gap
        "[in_gap, in_go]"]
    by metis
qed

subsection \<open>A device that never reports idle\<close>

lemma idle_step:
  "sd_state s = SD_IDLE \<Longrightarrow> \<not> (sd_ready i \<and> sd_status i = 6) \<Longrightarrow> sd_step G i s = s"
  by (simp add: sd_step_def)

lemma idle_run:
  "sd_state s = SD_IDLE \<Longrightarrow> \<forall>i\<in>set ins. \<not> (sd_ready i \<and> sd_status i = 6) \<Longrightarrow>
     sd_run G s ins = s"
  by (induction ins) (auto simp: idle_step)

text \<open>
  C5. When the loader is in \<open>Idle\<close> and the status never equals the idle value 6 along a
  trace, the loader is in \<open>Idle\<close> after every prefix of the trace, with all its registers
  unchanged, and so never in \<open>LoadStart\<close>.
\<close>

theorem idle_stall:
  assumes "sd_state s = SD_IDLE"
    and "\<forall>i\<in>set ins. sd_status i \<noteq> 6"
  shows "\<forall>k\<le>length ins. sd_run G s (take k ins) = s \<and>
           sd_state (sd_run G s (take k ins)) = SD_IDLE \<and>
           sd_state (sd_run G s (take k ins)) \<noteq> SD_LOAD_START"
proof (intro allI impI)
  fix k
  have "\<forall>i\<in>set (take k ins). \<not> (sd_ready i \<and> sd_status i = 6)"
    using assms(2) by (auto dest: in_set_takeD)
  with assms(1) have "sd_run G s (take k ins) = s" by (rule idle_run)
  with assms(1) show "sd_run G s (take k ins) = s \<and>
           sd_state (sd_run G s (take k ins)) = SD_IDLE \<and>
           sd_state (sd_run G s (take k ins)) \<noteq> SD_LOAD_START" by simp
qed

theorem idle_stall_witness:
  "sd_state loader_init = SD_IDLE \<and>
   sd_status in_busy \<noteq> 6 \<and> sd_status (in_go\<lparr>sd_status := 5\<rparr>) \<noteq> 6 \<and>
   sd_status in_byte \<noteq> 6 \<and>
   (2::nat) \<le> length [in_busy, in_go\<lparr>sd_status := 5\<rparr>, in_byte] \<and>
   sd_state (sd_run 97 loader_init (take 2 [in_busy, in_go\<lparr>sd_status := 5\<rparr>, in_byte]))
     = SD_IDLE"
proof -
  have h1: "sd_state loader_init = SD_IDLE" by (simp add: loader_init_def)
  have s: "sd_status in_busy \<noteq> 6" "sd_status (in_go\<lparr>sd_status := 5\<rparr>) \<noteq> 6"
    "sd_status in_byte \<noteq> 6"
    by (simp_all add: in_busy_def in_go_def in_byte_def)
  then have h2: "\<forall>i\<in>set [in_busy, in_go\<lparr>sd_status := 5\<rparr>, in_byte]. sd_status i \<noteq> 6"
    by simp
  have h3: "(2::nat) \<le> length [in_busy, in_go\<lparr>sd_status := 5\<rparr>, in_byte]" by simp
  from idle_stall [OF h1 h2, of 97] h3
  have "sd_state (sd_run 97 loader_init (take 2 [in_busy, in_go\<lparr>sd_status := 5\<rparr>, in_byte]))
          = SD_IDLE"
    by blast
  with h1 s h3 show ?thesis by blast
qed

subsection \<open>What a full session delivers\<close>






text \<open>The payload of sim_crc3.py is the stream between byte 128 and byte 49664.\<close>

lemma sd_payload_slice: "sd_payload data = py_slice data 128 49664"
  by (simp add: sd_payload_def)



subsection \<open>The header-skip contract\<close>



































section \<open>The checksums\<close>

declare crc_sweep.simps [simp del]

subsection \<open>Sums of bytes\<close>

lemma byte_sum_Nil: "byte_sum [] = 0"
  by (simp add: byte_sum_def)

lemma byte_sum_Cons: "byte_sum (x # xs) = uint x + byte_sum xs"
  by (simp add: byte_sum_def)

lemma byte_sum_append: "byte_sum (xs @ ys) = byte_sum xs + byte_sum ys"
  by (simp add: byte_sum_def)

lemma byte_sum_replicate: "byte_sum (replicate n b) = int n * uint b"
  by (simp add: byte_sum_def sum_list_replicate)

lemma byte_sum_zero: "set xs \<subseteq> {0} \<Longrightarrow> byte_sum xs = 0"
  by (induction xs) (auto simp: byte_sum_def)

lemma byte_sum_mset: "byte_sum xs = sum_mset (image_mset uint (mset xs))"
  by (simp add: byte_sum_def flip: sum_mset_sum_list)

lemma fold_add_bytes: "fold (\<lambda>b c'. c' + uint b) xs c = c + byte_sum xs"
  by (induction xs arbitrary: c) (auto simp: byte_sum_def)

subsection \<open>The sweep of sim_crc2.py\<close>

lemma upt_3: "[0..<3] = [0, 1, 2]"
  by (simp add: upt_rec)

text \<open>One period adds the twelve bytes from \<open>byte_addr\<close> on, as far as the data reaches.\<close>

lemma sample_words_eq:
  "sample_words data k c =
     c + byte_sum (take 4 (drop k data)) + byte_sum (take 4 (drop (k + 4) data))
       + byte_sum (take 4 (drop (k + 8) data))"
  by (simp add: sample_words_def upt_3 fold_add_bytes py_slice_def)

lemma take_drop_zero:
  assumes "set (drop k data) \<subseteq> {0}" and "k \<le> j"
  shows "byte_sum (take n (drop j data)) = 0"
proof -
  have "set (take n (drop j data)) \<subseteq> set (drop j data)" by (rule set_take_subset)
  also have "\<dots> \<subseteq> set (drop k data)" using assms(2) by (rule set_drop_subset_set_drop)
  finally show ?thesis using assms(1) by (intro byte_sum_zero) blast
qed

lemma sample_words_zero:
  "set (drop k data) \<subseteq> {0} \<Longrightarrow> sample_words data k c = c"
  by (simp add: sample_words_eq take_drop_zero)

text \<open>Once the data is zero from the current byte address on, the sweep adds nothing.\<close>

lemma crc_sweep_zero_tail:
  "set (drop (2 * a) data) \<subseteq> {0} \<Longrightarrow> crc_sweep data a c = c"
proof (induction data a c rule: crc_sweep.induct)
  case (1 data a c)
  show ?case
  proof (cases "a \<le> 0x00BFF0")
    case True
    have z: "sample_words data (a * 2) c = c"
      using "1.prems" by (intro sample_words_zero) (simp add: mult.commute)
    have "set (drop (2 * (a + 16)) data) \<subseteq> set (drop (2 * a) data)"
      by (rule set_drop_subset_set_drop) simp
    with "1.prems" have "set (drop (2 * (a + 16)) data) \<subseteq> {0}" by blast
    with "1.IH" [OF True] z have "crc_sweep data (a + 16) c = c" by simp
    with True z show ?thesis by (subst crc_sweep.simps) simp
  next
    case False
    then show ?thesis by (subst crc_sweep.simps) simp
  qed
qed

lemma sample_words_ones:
  "k + 12 \<le> n \<Longrightarrow> sample_words (replicate n 1 @ zs) k c = c + 12"
  by (auto simp: sample_words_eq byte_sum_replicate min_def)

text \<open>\<open>k\<close> periods that lie inside a run of \<open>0x01\<close> bytes add \<open>12 * k\<close>.\<close>

lemma crc_sweep_ones_phase:
  "k = 0 \<or> (a + 16 * (k - 1) \<le> 0x00BFF0 \<and> 2 * (a + 16 * (k - 1)) + 12 \<le> n) \<Longrightarrow>
     crc_sweep (replicate n 1 @ zs) a c
       = crc_sweep (replicate n 1 @ zs) (a + 16 * k) (c + 12 * int k)"
proof (induction k arbitrary: a c)
  case 0
  then show ?case by simp
next
  case (Suc k)
  then have b: "a + 16 * k \<le> 0x00BFF0" "2 * (a + 16 * k) + 12 \<le> n" by simp_all
  then have a: "a \<le> 0x00BFF0" "a * 2 + 12 \<le> n" by simp_all
  have step: "crc_sweep (replicate n 1 @ zs) a c
                = crc_sweep (replicate n 1 @ zs) (a + 16) (c + 12)"
    using a by (subst crc_sweep.simps) (simp add: sample_words_ones)
  have "k = 0 \<or> (a + 16 + 16 * (k - 1) \<le> 0x00BFF0 \<and> 2 * (a + 16 + 16 * (k - 1)) + 12 \<le> n)"
    using b by (cases k) simp_all
  from Suc.IH [OF this, of "c + 12"] step show ?case
    by (simp add: algebra_simps)
qed

lemma pad_data_zeros: "pad_data (replicate n 0) = replicate (max n 98304) 0"
  by (simp add: pad_data_def replicate_add [symmetric] max_def)

lemma sim_crc2_zeros: "sim_crc2 (replicate n 0) = 0"
  unfolding sim_crc2_def pad_data_zeros
  by (rule crc_sweep_zero_tail) (simp add: set_replicate_conv_if)

lemma sim_crc2_ones:
  assumes "98284 \<le> n"
  shows "sim_crc2 (replicate n 1) = 36864"
proof -
  let ?d = "replicate n 1 @ replicate (98304 - n) (0::byte)"
  have "crc_sweep ?d 0 0 = crc_sweep ?d (0 + 16 * 3072) (0 + 12 * int 3072)"
    by (rule crc_sweep_ones_phase) (use assms in simp)
  also have "\<dots> = 36864"
    by (subst crc_sweep.simps) simp
  finally show ?thesis by (simp add: sim_crc2_def pad_data_def)
qed

text \<open>A 48 KB image of \<open>0x01\<close> bytes: only the first 1536 periods lie inside it.\<close>

lemma sim_crc2_48k: "sim_crc2 (replicate 49152 1) = 18432"
proof -
  let ?d = "replicate 49152 1 @ replicate (98304 - 49152) (0::byte)"
  have "crc_sweep ?d 0 0 = crc_sweep ?d (0 + 16 * 1536) (0 + 12 * int 1536)"
    by (rule crc_sweep_ones_phase) simp
  also have "\<dots> = 18432"
    by (simp add: crc_sweep_zero_tail set_replicate_conv_if)
  finally show ?thesis by (simp add: sim_crc2_def pad_data_def)
qed

lemma sim_crc2_first: "sim_crc2 (1 # replicate 12 0) = 1"
proof -
  let ?d = "(1 # replicate 12 0) @ replicate (98304 - 13) (0::byte)"
  have s: "sample_words ?d 0 0 = 1"
    by (simp add: sample_words_eq byte_sum_replicate byte_sum_Cons byte_sum_Nil
          byte_sum_append)
  have "crc_sweep ?d 0 0 = crc_sweep ?d 16 1"
    by (subst crc_sweep.simps) (use s in simp)
  also have "\<dots> = 1"
    by (rule crc_sweep_zero_tail) (simp add: set_replicate_conv_if)
  finally show ?thesis by (simp add: sim_crc2_def pad_data_def)
qed

lemma sim_crc2_last: "sim_crc2 (replicate 12 0 @ [1]) = 0"
proof -
  let ?d = "(replicate 12 0 @ [1]) @ replicate (98304 - 13) (0::byte)"
  have s: "sample_words ?d 0 0 = 0"
    by (simp add: sample_words_eq byte_sum_replicate byte_sum_Cons byte_sum_Nil
          byte_sum_append)
  have "crc_sweep ?d 0 0 = crc_sweep ?d 16 0"
    by (subst crc_sweep.simps) (use s in simp)
  also have "\<dots> = 0"
    by (rule crc_sweep_zero_tail) (simp add: set_replicate_conv_if)
  finally show ?thesis by (simp add: sim_crc2_def pad_data_def)
qed

text \<open>
  The claim C1 fails for a payload shorter than the sweep: a 48 KB payload of \<open>0x01\<close> bytes
  is padded with zeros to 98304 bytes, the sweep reads byte addresses up to 98283, and
  the result is \<open>12 * 1536 = 18432\<close>, not \<open>12 * 3072 = 36864\<close>.
\<close>

theorem partial_sample_short_counterexample:
  "sim_crc2 (replicate 49152 1) = 18432 \<and>
   sim_crc2 (replicate 49152 1) \<noteq> 12 * (0x00BFF0 div 16 + 1)"
  by (simp add: sim_crc2_48k)

text \<open>
  C1, amended. With the cursor stepping by 16 up to \<open>0x00BFF0\<close> inclusive and three
  four-byte words sampled per period, the accumulator over a payload of zero bytes of any
  length is 0, and over a payload of \<open>0x01\<close> bytes that is at least 98284 bytes long, so
  that every sampled byte lies inside it, it is \<open>12 * (floor(0x00BFF0 / 16) + 1) = 36864\<close>.
\<close>

theorem partial_sample_scenario:
  "sim_crc2 (replicate n 0) = 0x00000000 \<and>
   (98284 \<le> n \<longrightarrow> sim_crc2 (replicate n 1) = 12 * (0x00BFF0 div 16 + 1)) \<and>
   (12 * (0x00BFF0 div 16 + 1) :: int) = 36864"
  by (simp add: sim_crc2_zeros sim_crc2_ones)

theorem partial_sample_scenario_witness:
  "(98284::nat) \<le> 98304 \<and> sim_crc2 (replicate 98304 0) = 0 \<and>
   sim_crc2 (replicate 98304 1) = 36864"
proof -
  have h: "(98284::nat) \<le> 98304" by simp
  from partial_sample_scenario [of 98304] h show ?thesis by simp
qed

subsection \<open>The full sum\<close>

lemma and_ffffffff: "(x::int) AND 0xFFFFFFFF = x mod 2 ^ 32"
proof -
  have m: "(0xFFFFFFFF::int) = mask 32" by (simp add: mask_eq_exp_minus_1)
  have "x AND 0xFFFFFFFF = take_bit 32 x" by (simp only: m take_bit_eq_mask)
  also have "\<dots> = x mod 2 ^ 32" by (simp only: take_bit_eq_mod)
  finally show ?thesis .
qed

lemma fold_wrapped:
  "fold (\<lambda>b c. (c + uint b) AND 0xFFFFFFFF) xs (c mod 2 ^ 32) = (c + byte_sum xs) mod 2 ^ 32"
proof (induction xs arbitrary: c)
  case Nil
  then show ?case by (simp add: byte_sum_def)
next
  case (Cons x xs)
  have "(c mod 2 ^ 32 + uint x) AND 0xFFFFFFFF = (c + uint x) mod 2 ^ 32"
    by (simp add: and_ffffffff mod_add_left_eq)
  with Cons.IH [of "c + uint x"] show ?case
    by (simp add: byte_sum_def add.assoc)
qed

text \<open>The masked accumulation is the sum modulo \<open>2^32\<close>.\<close>

lemma wrapped_sum_mod: "wrapped_sum xs = byte_sum xs mod 2 ^ 32"
  using fold_wrapped [of xs 0] by (simp add: wrapped_sum_def)

lemma sd_checksum_mod: "sd_checksum data = byte_sum (py_slice data 128 49664) mod 2 ^ 32"
  by (simp add: sd_checksum_def wrapped_sum_mod sd_payload_slice)

lemma sd_checksum_ff:
  "length hdr = 128 \<Longrightarrow> sd_checksum (hdr @ replicate 49536 0xFF) = 0x00C0BE80"
  by (simp add: sd_checksum_def sd_payload_def py_slice_def wrapped_sum_mod byte_sum_replicate)

lemma calculate_sum_slice:
  "length data \<le> 49664 \<Longrightarrow>
     calculate_sum (Some data) 128 = Some (byte_sum (py_slice data 128 49664))"
  by (simp add: calculate_sum_def processing_data_def py_slice_def)

text \<open>
  The claim C2 fails in its constant: \<open>49536 * 0xFF\<close> is \<open>0x00C0BE80\<close>, and that is what
  the script computes for a 128-byte header followed by 49536 bytes of \<open>0xFF\<close>.
\<close>

theorem full_sum_ff_counterexample:
  "sd_checksum (replicate 128 0 @ replicate 49536 0xFF) = 49536 * 0xFF mod 2 ^ 32 \<and>
   sd_checksum (replicate 128 0 @ replicate 49536 0xFF) \<noteq> 0x00C4C140"
proof -
  have "length (replicate 128 (0::byte)) = 128" by simp
  from sd_checksum_ff [OF this] show ?thesis by simp
qed

text \<open>
  C2, amended. With a header of 128 bytes and 97 sectors of 512 bytes, the full-sum
  checksum is the arithmetic sum of the bytes \<open>[128:49664]\<close> modulo \<open>2^32\<close>, and
  \<^verbatim>\<open>calculate_sum\<close> with \<open>skip_header = 128\<close> returns that sum for a file of at most 49664
  bytes; when the 49536 bytes after the header are all \<open>0xFF\<close>, the checksum is
  \<open>49536 * 0xFF mod 2^32 = 0x00C0BE80\<close>.
\<close>

theorem full_sum_scenario:
  "sd_checksum data = byte_sum (py_slice data 128 (97 * 512)) mod 2 ^ 32 \<and>
   (length data \<le> 97 * 512 \<longrightarrow>
      calculate_sum (Some data) 128 = Some (byte_sum (py_slice data 128 (97 * 512)))) \<and>
   (length hdr = 128 \<longrightarrow>
      sd_checksum (hdr @ replicate 49536 0xFF) = 49536 * 0xFF mod 2 ^ 32 \<and>
      sd_checksum (hdr @ replicate 49536 0xFF) = 0x00C0BE80)"
proof (intro conjI impI)
  show "sd_checksum data = byte_sum (py_slice data 128 (97 * 512)) mod 2 ^ 32"
    by (simp add: sd_checksum_mod)
next
  assume "length data \<le> 97 * 512"
  then show "calculate_sum (Some data) 128 = Some (byte_sum (py_slice data 128 (97 * 512)))"
    by (simp add: calculate_sum_slice)
next
  assume h: "length hdr = 128"
  from sd_checksum_ff [OF h]
  show "sd_checksum (hdr @ replicate 49536 0xFF) = 49536 * 0xFF mod 2 ^ 32"
    "sd_checksum (hdr @ replicate 49536 0xFF) = 0x00C0BE80"
    by simp_all
qed

theorem full_sum_scenario_witness:
  "length (replicate 128 (7::byte)) = 128 \<and>
   length (replicate 128 (7::byte) @ replicate 49536 0xFF) \<le> 97 * 512 \<and>
   sd_checksum (replicate 128 7 @ replicate 49536 0xFF) = 0x00C0BE80 \<and>
   calculate_sum (Some (replicate 128 7 @ replicate 49536 0xFF)) 128
     = Some (byte_sum (py_slice (replicate 128 7 @ replicate 49536 0xFF) 128 (97 * 512)))"
proof -
  have h1: "length (replicate 128 (7::byte)) = 128" by simp
  have h2: "length (replicate 128 (7::byte) @ replicate 49536 0xFF) \<le> 97 * 512" by simp
  from full_sum_scenario [of "replicate 128 7 @ replicate 49536 0xFF" "replicate 128 7"] h1 h2
  show ?thesis by blast
qed

subsection \<open>Reordering the payload\<close>

text \<open>
  C8. The full sum does not depend on the order of the payload bytes: for payloads that
  are reorderings of one another, \<^verbatim>\<open>calculate_sum\<close> returns the same sum and the masked
  accumulation of sim_crc3.py the same 32-bit total. The periodic partial-sample checksum
  does depend on it: moving the one non-zero byte of a 13-byte payload from the front to
  the back changes the result.
\<close>

theorem checksum_permutation:
  "(mset (processing_data xs k) = mset (processing_data ys k) \<longrightarrow>
      calculate_sum (Some xs) k = calculate_sum (Some ys) k) \<and>
   (mset xs = mset ys \<longrightarrow>
      wrapped_sum xs = wrapped_sum ys \<and>
      byte_sum xs mod 2 ^ 32 = byte_sum ys mod 2 ^ 32) \<and>
   mset (1 # replicate 12 (0::byte)) = mset (replicate 12 0 @ [1]) \<and>
   sim_crc2 (1 # replicate 12 0) \<noteq> sim_crc2 (replicate 12 0 @ [1]) \<and>
   (\<exists>ps qs. mset ps = mset qs \<and> sim_crc2 ps \<noteq> sim_crc2 qs)"
proof (intro conjI impI)
  assume "mset (processing_data xs k) = mset (processing_data ys k)"
  then have "byte_sum (processing_data xs k) = byte_sum (processing_data ys k)"
    by (simp add: byte_sum_mset)
  then show "calculate_sum (Some xs) k = calculate_sum (Some ys) k"
    by (simp add: calculate_sum_def)
next
  assume "mset xs = mset ys"
  then have e: "byte_sum xs = byte_sum ys" by (simp add: byte_sum_mset)
  then show "wrapped_sum xs = wrapped_sum ys" by (simp add: wrapped_sum_mod)
  from e show "byte_sum xs mod 2 ^ 32 = byte_sum ys mod 2 ^ 32" by simp
next
  show m: "mset (1 # replicate 12 (0::byte)) = mset (replicate 12 0 @ [1])" by simp
  show d: "sim_crc2 (1 # replicate 12 0) \<noteq> sim_crc2 (replicate 12 0 @ [1])"
    by (simp add: sim_crc2_first sim_crc2_last)
  from m d show "\<exists>ps qs. mset ps = mset qs \<and> sim_crc2 ps \<noteq> sim_crc2 qs" by blast
qed

theorem checksum_permutation_witness:
  "mset (processing_data [9, 1, 2, 3] 1) = mset (processing_data [8, 3, 1, 2] 1) \<and>
   calculate_sum (Some [9, 1, 2, 3]) 1 = calculate_sum (Some [8, 3, 1, 2]) 1 \<and>
   mset [1, 2, 3 :: byte] = mset [3, 1, 2] \<and>
   wrapped_sum [1, 2, 3] = wrapped_sum [3, 1, 2]"
proof -
  have h1: "mset (processing_data [9, 1, 2, 3] 1) = mset (processing_data [8, 3, 1, 2] 1)"
    by (simp add: processing_data_def)
  have h2: "mset [1, 2, 3 :: byte] = mset [3, 1, 2]" by simp
  from checksum_permutation [of "[9, 1, 2, 3]" 1 "[8, 3, 1, 2]"]
    checksum_permutation [of "[1, 2, 3]" 0 "[3, 1, 2]"] h1 h2
  show ?thesis by blast
qed

section \<open>Placement of a byte in a burst\<close>

lemma and_3_mod: "(a::nat) AND 3 = a mod 4"
proof -
  have "(3::nat) = mask 2" by (simp add: mask_eq_exp_minus_1)
  then have "a AND 3 = take_bit 2 a" by (simp only: take_bit_eq_mask)
  then show ?thesis by (simp add: take_bit_eq_mod)
qed

lemma word_sel_mod: "word_sel a = (a div 4) mod 4"
  by (simp add: word_sel_def and_3_mod drop_bit_eq_div)

lemma byte_sel_mod: "byte_sel a = a mod 4"
  by (simp add: byte_sel_def and_3_mod)

lemma sim_offset_fold:
  "fold (\<lambda>i (load_addr, out).
           (load_addr + 1, out @ [(i, word_sel load_addr, byte_sel load_addr)]))
        [0..<n] (0, []) = (n, map (\<lambda>i. (i, word_sel i, byte_sel i)) [0..<n])"
  by (induction n) simp_all

text \<open>The script prints, for each address below 32, its word and byte selectors.\<close>

lemma sim_offset_map: "sim_offset = map (\<lambda>i. (i, word_sel i, byte_sel i)) [0..<32]"
  by (simp only: sim_offset_def sim_offset_fold snd_conv)

lemma lex_lin:
  "(a::nat) = 4 * qa + ra \<Longrightarrow> b = 4 * qb + rb \<Longrightarrow> ra < 4 \<Longrightarrow> rb < 4 \<Longrightarrow> a < b \<Longrightarrow>
     qa < qb \<or> (qa = qb \<and> ra < rb)"
  by linarith

lemma lex_unmasked:
  assumes "(a::nat) < b"
  shows "a div 4 < b div 4 \<or> (a div 4 = b div 4 \<and> a mod 4 < b mod 4)"
proof -
  have "a = 4 * (a div 4) + a mod 4" "b = 4 * (b div 4) + b mod 4" by simp_all
  moreover have "a mod 4 < 4" "b mod 4 < 4" by simp_all
  ultimately show ?thesis using assms by (rule lex_lin)
qed

lemma div4_split: "(a::nat) div 4 = 4 * (a div 16) + (a div 4) mod 4"
proof -
  have "a div 16 = a div 4 div 4"
    using div_mult2_eq [of a 4 4] by simp
  then show ?thesis by simp
qed

lemma lex_burst:
  assumes "(a::nat) < b" and "a div 16 = b div 16"
  shows "(a div 4) mod 4 < (b div 4) mod 4 \<or>
     ((a div 4) mod 4 = (b div 4) mod 4 \<and> a mod 4 < b mod 4)"
proof -
  from lex_unmasked [OF assms(1)]
  have "a div 4 < b div 4 \<or> (a div 4 = b div 4 \<and> a mod 4 < b mod 4)" .
  moreover have "a div 4 = 4 * (b div 16) + (a div 4) mod 4"
    using div4_split [of a] assms(2) by simp
  moreover have "b div 4 = 4 * (b div 16) + (b div 4) mod 4"
    by (rule div4_split)
  ultimately show ?thesis by auto
qed

lemma burst_period: "word_sel (a + 16) = word_sel a \<and> byte_sel (a + 16) = byte_sel a"
proof -
  have "(a + 4 * 4) div 4 = 4 + a div 4" by (rule div_mult_self2) simp
  then have 1: "(a + 16) div 4 = a div 4 + 4" by simp
  have "(a + 4 * 4) mod 4 = a mod 4" by (rule mod_mult_self2)
  then have 2: "(a + 16) mod 4 = a mod 4" by simp
  show ?thesis unfolding word_sel_mod byte_sel_mod 1 2 by simp
qed

lemma lex_distinct_unmasked:
  "(a::nat) \<noteq> b \<Longrightarrow> (a div 4, a mod 4) \<noteq> (b div 4, b mod 4)"
  using lex_unmasked [of a b] lex_unmasked [of b a] by (cases "a < b") auto

lemma lex_distinct_burst:
  "(a::nat) \<noteq> b \<Longrightarrow> a div 16 = b div 16 \<Longrightarrow>
     ((a div 4) mod 4, a mod 4) \<noteq> ((b div 4) mod 4, b mod 4)"
  using lex_burst [of a b] lex_burst [of b a] by (cases "a < b") auto

text \<open>
  The selector pair the script prints is a different one: its word selector is masked to
  two bits, so the addresses 0 and 16, both among the 32 the script walks, print the
  same pair.
\<close>

lemma masked_pair_collision:
  "(0::nat) \<noteq> 16 \<and> (0::nat) < 32 \<and> (16::nat) < 32 \<and>
   (word_sel 0, byte_sel 0) = (word_sel 16, byte_sel 16)"
  by (simp add: word_sel_mod byte_sel_mod)

text \<open>
  C7. For distinct addresses \<open>a\<close>, \<open>b\<close> the placement pairs \<open>(a >> 2, a & 3)\<close> and
  \<open>(b >> 2, b & 3)\<close> are distinct, and the pair is strictly increasing in the address
  under the lexicographic order: no two bytes map to the same word index and byte lane.
  This holds for all addresses, so for those below any payload length. The pair the
  script prints, \<open>((a >> 2) & 3, a & 3)\<close>, has the word index reduced to the word within a
  16-byte burst: it is distinct and strictly increasing among the addresses of one burst
  (\<open>a >> 4 = b >> 4\<close>) and repeats with period 16.
\<close>

theorem placement_pairs:
  "(a < b \<longrightarrow>
      drop_bit 2 a < drop_bit 2 b \<or> (drop_bit 2 a = drop_bit 2 b \<and> byte_sel a < byte_sel b)) \<and>
   (a \<noteq> b \<longrightarrow> (drop_bit 2 a, byte_sel a) \<noteq> (drop_bit 2 b, byte_sel b)) \<and>
   (a < b \<and> drop_bit 4 a = drop_bit 4 b \<longrightarrow>
      word_sel a < word_sel b \<or> (word_sel a = word_sel b \<and> byte_sel a < byte_sel b)) \<and>
   (a \<noteq> b \<and> drop_bit 4 a = drop_bit 4 b \<longrightarrow>
      (word_sel a, byte_sel a) \<noteq> (word_sel b, byte_sel b)) \<and>
   word_sel (a + 16) = word_sel a \<and> byte_sel (a + 16) = byte_sel a \<and>
   sim_offset = map (\<lambda>i. (i, word_sel i, byte_sel i)) [0..<32]"
proof (intro conjI impI)
  assume "a < b"
  then show "drop_bit 2 a < drop_bit 2 b \<or>
      (drop_bit 2 a = drop_bit 2 b \<and> byte_sel a < byte_sel b)"
    using lex_unmasked [of a b] by (simp add: drop_bit_eq_div byte_sel_mod)
next
  assume "a \<noteq> b"
  then show "(drop_bit 2 a, byte_sel a) \<noteq> (drop_bit 2 b, byte_sel b)"
    using lex_distinct_unmasked [of a b] by (simp add: drop_bit_eq_div byte_sel_mod)
next
  assume "a < b \<and> drop_bit 4 a = drop_bit 4 b"
  then show "word_sel a < word_sel b \<or> (word_sel a = word_sel b \<and> byte_sel a < byte_sel b)"
    using lex_burst [of a b] by (simp add: drop_bit_eq_div byte_sel_mod word_sel_mod)
next
  assume "a \<noteq> b \<and> drop_bit 4 a = drop_bit 4 b"
  then show "(word_sel a, byte_sel a) \<noteq> (word_sel b, byte_sel b)"
    using lex_distinct_burst [of a b] by (simp add: drop_bit_eq_div byte_sel_mod word_sel_mod)
next
  show "word_sel (a + 16) = word_sel a" "byte_sel (a + 16) = byte_sel a"
    using burst_period [of a] by simp_all
next
  show "sim_offset = map (\<lambda>i. (i, word_sel i, byte_sel i)) [0..<32]"
    by (rule sim_offset_map)
qed

theorem placement_pairs_witness:
  "(7::nat) < 9 \<and> (7::nat) \<noteq> 9 \<and> drop_bit 4 (7::nat) = drop_bit 4 (9::nat) \<and>
   (word_sel 7, byte_sel 7) = (1, 3) \<and> (word_sel 9, byte_sel 9) = (2, 1) \<and>
   (word_sel 7, byte_sel 7) \<noteq> (word_sel 9, byte_sel 9) \<and>
   (drop_bit 2 (7::nat), byte_sel 7) \<noteq> (drop_bit 2 (9::nat), byte_sel 9) \<and>
   (word_sel 7 < word_sel 9 \<or> (word_sel 7 = word_sel 9 \<and> byte_sel 7 < byte_sel 9))"
proof -
  have h: "(7::nat) < 9" "(7::nat) \<noteq> 9" "drop_bit 4 (7::nat) = drop_bit 4 (9::nat)"
    by (simp_all add: drop_bit_eq_div)
  have v: "(word_sel 7, byte_sel 7) = (1, 3)" "(word_sel 9, byte_sel 9) = (2, 1)"
    by (simp_all add: word_sel_mod byte_sel_mod)
  from placement_pairs [of 7 9] h v show ?thesis by blast
qed

end
